theory Spec2Isabelle
  imports Complex_Main "HOL-Library.Word" "HOL-Library.Log_Nat"
begin

section \<open>Grids\<close>

text \<open>
  A two-dimensional numpy array is its shape together with its cells. A read at an index
  the code computes goes through \<open>get2\<close>, which raises \<open>IndexError\<close> outside the shape
  as numpy does (a negative index counts from the end); elementwise operations read the
  cells inside the shape only.

  Floating-point cells are idealised: a finite float is a \<open>real\<close> and arithmetic on it is
  exact, without rounding or overflow. Where the code tests for NaN the cell type is
  \<open>fl\<close>, a real or NaN. The last section writes the rounding of binary32 out, for the one
  property that depends on it.
\<close>

datatype error = IndexError | ValueError | IOError

record 'a grid =
  nrows :: nat
  ncols :: nat
  cell :: "nat \<Rightarrow> nat \<Rightarrow> 'a"

datatype fl = NaN | Val real

definition shape :: "'a grid \<Rightarrow> nat \<times> nat" where
  "shape g = (nrows g, ncols g)"

definition of_rows :: "'a list list \<Rightarrow> 'a grid" where
  "of_rows xss =
     \<lparr>nrows = length xss,
      ncols = (case xss of [] \<Rightarrow> 0 | xs # _ \<Rightarrow> length xs),
      cell = (\<lambda>r c. xss ! r ! c)\<rparr>"

definition py_index :: "nat \<Rightarrow> int \<Rightarrow> error + nat" where
  "py_index n i =
     (let j = (if i < 0 then int n + i else i)
      in if 0 \<le> j \<and> j < int n then Inr (nat j) else Inl IndexError)"

definition get2 :: "'a grid \<Rightarrow> int \<Rightarrow> int \<Rightarrow> error + 'a" where
  "get2 g i j =
     (case py_index (nrows g) i of
        Inl e \<Rightarrow> Inl e
      | Inr r \<Rightarrow>
          (case py_index (ncols g) j of
             Inl e \<Rightarrow> Inl e
           | Inr c \<Rightarrow> Inr (cell g r c)))"

definition set2 :: "'a grid \<Rightarrow> nat \<Rightarrow> nat \<Rightarrow> 'a \<Rightarrow> 'a grid" where
  "set2 g r c v = g\<lparr>cell := (cell g)(r := (cell g r)(c := v))\<rparr>"

definition zeros_like :: "'a grid \<Rightarrow> 'b \<Rightarrow> 'b grid" where
  "zeros_like g z = \<lparr>nrows = nrows g, ncols = ncols g, cell = (\<lambda>r c. z)\<rparr>"

text \<open>The slice \<open>a[1:-1, 1:-1]\<close>: the array without its first and last row and column.\<close>

definition interior :: "'a grid \<Rightarrow> 'a grid" where
  "interior g =
     \<lparr>nrows = nrows g - 2, ncols = ncols g - 2, cell = (\<lambda>r c. cell g (r + 1) (c + 1))\<rparr>"

section \<open>Flow direction (D8)\<close>

definition D8_OFFSETS :: "(int \<times> int) list" where
  "D8_OFFSETS = [(-1, -1), (-1, 0), (-1, 1), (0, 1), (1, 1), (1, 0), (1, -1), (0, -1)]"

definition D8_VALUES :: "8 word list" where
  "D8_VALUES = [128, 1, 2, 4, 8, 16, 32, 64]"

text \<open>
  The loop over \<open>enumerate(D8_OFFSETS)\<close> at the cell \<open>(r, c)\<close> with elevation \<open>center\<close>.
  Its state is \<open>(min_diff, min_dir)\<close>; \<open>min_diff = None\<close> is \<open>float("inf")\<close>.
\<close>

fun neighbor_loop ::
  "fl grid \<Rightarrow> nat grid \<Rightarrow> nat \<Rightarrow> nat \<Rightarrow> real \<Rightarrow> (nat \<times> int \<times> int) list \<Rightarrow>
   real option \<times> 8 word \<Rightarrow> error + (real option \<times> 8 word)" where
  "neighbor_loop w m r c center [] st = Inr st"
| "neighbor_loop w m r c center ((i, dr, dc) # rest) (min_diff, min_dir) =
     (case get2 w (int r + dr) (int c + dc) of
        Inl e \<Rightarrow> Inl e
      | Inr NaN \<Rightarrow> neighbor_loop w m r c center rest (min_diff, min_dir)
      | Inr (Val neighbor) \<Rightarrow>
          (case get2 m (int r + dr) (int c + dc) of
             Inl e \<Rightarrow> Inl e
           | Inr mv \<Rightarrow>
               if mv = 1 then
                 (let diff = center - neighbor in
                  if diff > 0 \<and> (case min_diff of None \<Rightarrow> True | Some md \<Rightarrow> diff < md)
                  then neighbor_loop w m r c center rest (Some diff, D8_VALUES ! i)
                  else neighbor_loop w m r c center rest (min_diff, min_dir))
               else neighbor_loop w m r c center rest (min_diff, min_dir)))"

text \<open>
  One iteration of the loop over \<open>c\<close>: \<open>None\<close> when the iteration ends in \<open>continue\<close>
  (sea or NaN), otherwise the code it stores in \<open>flow_dir[r, c]\<close>.
\<close>

definition cell_direction :: "fl grid \<Rightarrow> nat grid \<Rightarrow> nat \<Rightarrow> nat \<Rightarrow> error + 8 word option" where
  "cell_direction w m r c =
     (case get2 m (int r) (int c) of
        Inl e \<Rightarrow> Inl e
      | Inr mv \<Rightarrow>
          if mv = 0 then Inr None
          else
            (case get2 w (int r) (int c) of
               Inl e \<Rightarrow> Inl e
             | Inr NaN \<Rightarrow> Inr None
             | Inr (Val center) \<Rightarrow>
                 (case neighbor_loop w m r c center (enumerate 0 D8_OFFSETS) (None, 0) of
                    Inl e \<Rightarrow> Inl e
                  | Inr (min_diff, min_dir) \<Rightarrow> Inr (Some min_dir))))"

fun col_loop :: "fl grid \<Rightarrow> nat grid \<Rightarrow> nat \<Rightarrow> nat list \<Rightarrow> 8 word grid \<Rightarrow> error + 8 word grid" where
  "col_loop w m r [] flow_dir = Inr flow_dir"
| "col_loop w m r (c # cs) flow_dir =
     (case cell_direction w m r c of
        Inl e \<Rightarrow> Inl e
      | Inr None \<Rightarrow> col_loop w m r cs flow_dir
      | Inr (Some min_dir) \<Rightarrow> col_loop w m r cs (set2 flow_dir r c min_dir))"

fun row_loop :: "fl grid \<Rightarrow> nat grid \<Rightarrow> nat list \<Rightarrow> nat list \<Rightarrow> 8 word grid \<Rightarrow> error + 8 word grid" where
  "row_loop w m [] cs flow_dir = Inr flow_dir"
| "row_loop w m (r # rs) cs flow_dir =
     (case col_loop w m r cs flow_dir of
        Inl e \<Rightarrow> Inl e
      | Inr flow_dir' \<Rightarrow> row_loop w m rs cs flow_dir')"

text \<open>The array \<open>flow_dir\<close> when both loops are done, before the slice is taken.\<close>

definition flow_dir_full :: "fl grid \<Rightarrow> nat grid \<Rightarrow> error + 8 word grid" where
  "flow_dir_full window_data msk =
     (let rows = nrows window_data; cols = ncols window_data
      in row_loop window_data msk [1..<rows - 1] [1..<cols - 1] (zeros_like window_data 0))"

definition calculate_flow_direction :: "fl grid \<Rightarrow> nat grid \<Rightarrow> error + 8 word grid" where
  "calculate_flow_direction window_data msk =
     (case flow_dir_full window_data msk of
        Inl e \<Rightarrow> Inl e
      | Inr flow_dir \<Rightarrow> Inr (interior flow_dir))"

text \<open>
  The downslope candidates of the cell \<open>(r, c)\<close>, in the order the neighbours are examined:
  for each neighbour that is not NaN, has mask 1 and lies below the centre, its elevation
  drop \<open>diff\<close> and its direction code.
\<close>

definition candidates_of ::
  "fl grid \<Rightarrow> nat grid \<Rightarrow> nat \<Rightarrow> nat \<Rightarrow> real \<Rightarrow> (nat \<times> int \<times> int) list \<Rightarrow> (real \<times> 8 word) list" where
  "candidates_of w m r c center offs =
     concat (map (\<lambda>(i, dr, dc).
       (case cell w (nat (int r + dr)) (nat (int c + dc)) of
          NaN \<Rightarrow> []
        | Val neighbor \<Rightarrow>
            if cell m (nat (int r + dr)) (nat (int c + dc)) = 1 \<and> center - neighbor > 0
            then [(center - neighbor, D8_VALUES ! i)] else [])) offs)"

definition candidates :: "fl grid \<Rightarrow> nat grid \<Rightarrow> nat \<Rightarrow> nat \<Rightarrow> real \<Rightarrow> (real \<times> 8 word) list" where
  "candidates w m r c center = candidates_of w m r c center (enumerate 0 D8_OFFSETS)"

text \<open>The state of the neighbour loop after one more candidate.\<close>

definition keep_min :: "real option \<times> 8 word \<Rightarrow> real \<times> 8 word \<Rightarrow> real option \<times> 8 word" where
  "keep_min st x =
     (case st of (min_diff, min_dir) \<Rightarrow>
        if (case min_diff of None \<Rightarrow> True | Some md \<Rightarrow> fst x < md) then (Some (fst x), snd x)
        else (min_diff, min_dir))"

text \<open>
  What the iteration for \<open>(r, c)\<close> leaves in \<open>flow_dir[r, c]\<close>: the code it stores, or the
  initial 0 when it stores none.
\<close>

definition code_at :: "fl grid \<Rightarrow> nat grid \<Rightarrow> nat \<Rightarrow> nat \<Rightarrow> 8 word" where
  "code_at w m r c = (case cell_direction w m r c of Inr (Some v) \<Rightarrow> v | _ \<Rightarrow> 0)"

text \<open>A 3 \<times> 3 window whose centre has three neighbours at the smallest drop, on land.\<close>

definition example_window :: "fl grid" where
  "example_window =
     of_rows [[Val 9, Val 7, Val (19 / 2)],
              [Val (19 / 2), Val 10, Val 12],
              [Val 3, Val (19 / 2), NaN]]"

definition example_mask :: "nat grid" where
  "example_mask = of_rows [[1, 1, 1], [1, 1, 1], [1, 1, 1]]"

section \<open>Runoff (SCS curve number)\<close>

text \<open>
  numpy broadcasting of two-dimensional arrays: two axis lengths are compatible when they
  are equal or one of them is 1; otherwise the operation raises \<open>ValueError\<close>. An axis of
  length 1 is read at index 0 for every index of the result.
\<close>

definition bind_err :: "error + 'a \<Rightarrow> ('a \<Rightarrow> error + 'b) \<Rightarrow> error + 'b" where
  "bind_err x f = (case x of Inl e \<Rightarrow> Inl e | Inr v \<Rightarrow> f v)"

definition bdim :: "nat \<Rightarrow> nat \<Rightarrow> error + nat" where
  "bdim a b =
     (if a = b then Inr a else if a = 1 then Inr b else if b = 1 then Inr a else Inl ValueError)"

definition broadcast_shape :: "nat \<times> nat \<Rightarrow> nat \<times> nat \<Rightarrow> error + nat \<times> nat" where
  "broadcast_shape s t =
     bind_err (bdim (fst s) (fst t)) (\<lambda>nr.
     bind_err (bdim (snd s) (snd t)) (\<lambda>nc. Inr (nr, nc)))"

definition bidx :: "nat \<Rightarrow> nat \<Rightarrow> nat" where
  "bidx n i = (if n = 1 then 0 else i)"

definition bcell :: "'a grid \<Rightarrow> nat \<Rightarrow> nat \<Rightarrow> 'a" where
  "bcell g i j = cell g (bidx (nrows g) i) (bidx (ncols g) j)"

definition broadcast2 :: "('a \<Rightarrow> 'b \<Rightarrow> 'c) \<Rightarrow> 'a grid \<Rightarrow> 'b grid \<Rightarrow> error + 'c grid" where
  "broadcast2 f x y =
     bind_err (broadcast_shape (shape x) (shape y)) (\<lambda>s.
       Inr \<lparr>nrows = fst s, ncols = snd s, cell = (\<lambda>i j. f (bcell x i j) (bcell y i j))\<rparr>)"

definition gmap :: "('a \<Rightarrow> 'b) \<Rightarrow> 'a grid \<Rightarrow> 'b grid" where
  "gmap f g = \<lparr>nrows = nrows g, ncols = ncols g, cell = (\<lambda>i j. f (cell g i j))\<rparr>"

text \<open>
  Indexing \<open>a[b]\<close> with a boolean array \<open>b\<close>, read or written: numpy raises \<open>IndexError\<close>
  unless \<open>b\<close> has the shape of \<open>a\<close>; the cells concerned are those where \<open>b\<close> is true.
\<close>

definition bool_index :: "'a grid \<Rightarrow> bool grid \<Rightarrow> error + unit" where
  "bool_index a b = (if shape b = shape a then Inr () else Inl IndexError)"

text \<open>The formulas of \<open>compute_runoff\<close>, cell by cell, in the order of its lines.\<close>

definition cn_cell :: "real \<Rightarrow> nat \<Rightarrow> real" where
  "cn_cell cn mv = (if cn \<le> 0 \<or> mv = 0 then 1 / 10 ^ 6 else cn)"

definition precipitation_cell :: "nat \<Rightarrow> real \<Rightarrow> real" where
  "precipitation_cell mv p = (if mv = 0 then 0 else p)"

definition S_cell :: "real \<Rightarrow> real" where
  "S_cell cn = max (1000 / cn - 10) 0"

definition valid_cell :: "real \<Rightarrow> real \<Rightarrow> nat \<Rightarrow> bool" where
  "valid_cell p s mv = (p > 0.2 * s \<and> mv = 1)"

definition runoff_denominator :: "real \<Rightarrow> real \<Rightarrow> real" where
  "runoff_denominator p s = p + 0.8 * s + 1 / 10 ^ 6"

definition runoff_cell :: "real \<Rightarrow> real \<Rightarrow> real" where
  "runoff_cell p s = (p - 0.2 * s) ^ 2 / runoff_denominator p s"

definition compute_runoff :: "real grid \<Rightarrow> real grid \<Rightarrow> nat grid \<Rightarrow> error + real grid" where
  "compute_runoff precipitation cn_map msk =
     bind_err (broadcast2 cn_cell cn_map msk) (\<lambda>cn_map'.
     bind_err (broadcast2 precipitation_cell msk precipitation) (\<lambda>precipitation'.
     let S = gmap S_cell cn_map';
         runoff = zeros_like precipitation' (0 :: real)
     in
     bind_err (broadcast2 (\<lambda>p s. p > 0.2 * s) precipitation' S) (\<lambda>above.
     bind_err (broadcast2 (\<lambda>a mv. a \<and> mv = 1) above msk) (\<lambda>valid_mask.
     bind_err (bool_index precipitation' valid_mask) (\<lambda>_.
     bind_err (bool_index S valid_mask) (\<lambda>_.
     bind_err (bool_index runoff valid_mask) (\<lambda>_.
     let runoff' = runoff\<lparr>cell := (\<lambda>i j.
           if cell valid_mask i j then runoff_cell (cell precipitation' i j) (cell S i j)
           else cell runoff i j)\<rparr>
     in broadcast2 (\<lambda>x mv. x * real mv) runoff' msk)))))))"

text \<open>
  The spec's scenario, with one cell of sea: precipitation [[0, 5], [10, 0]], curve number
  80, and the mask 0 at the cell that holds 5.
\<close>

definition scenario_precipitation :: "real grid" where
  "scenario_precipitation = of_rows [[0, 5], [10, 0]]"

definition scenario_cn :: "real grid" where
  "scenario_cn = of_rows [[80, 80], [80, 80]]"

definition scenario_mask :: "nat grid" where
  "scenario_mask = of_rows [[1, 0], [1, 1]]"

text \<open>A curve-number grid of a single cell, which numpy broadcasts over any grid.\<close>

definition single_cn :: "real grid" where
  "single_cn = of_rows [[80]]"

section \<open>Min-max normalisation\<close>

text \<open>
  \<open>np.min\<close> and \<open>np.max\<close> reduce over all cells, taken in row-major order; on an array
  without cells they raise \<open>ValueError\<close>.
\<close>

definition cells_of :: "'a grid \<Rightarrow> 'a list" where
  "cells_of g = concat (map (\<lambda>i. map (\<lambda>j. cell g i j) [0..<ncols g]) [0..<nrows g])"

definition np_min :: "real grid \<Rightarrow> error + real" where
  "np_min g = (case cells_of g of [] \<Rightarrow> Inl ValueError | x # xs \<Rightarrow> Inr (fold min xs x))"

definition np_max :: "real grid \<Rightarrow> error + real" where
  "np_max g = (case cells_of g of [] \<Rightarrow> Inl ValueError | x # xs \<Rightarrow> Inr (fold max xs x))"

definition normalize :: "real grid \<Rightarrow> error + real grid" where
  "normalize array =
     bind_err (np_min array) (\<lambda>lo.
     bind_err (np_max array) (\<lambda>hi.
     bind_err (np_min array) (\<lambda>lo'.
       Inr (gmap (\<lambda>x. (x - lo) / (hi - lo' + 1 / 10 ^ 6)) array))))"

text \<open>A grid that holds 7 in each of its 2 \<times> 3 cells.\<close>

definition constant_grid :: "real grid" where
  "constant_grid = of_rows [[7, 7, 7], [7, 7, 7]]"

section \<open>The per-file radar pipeline and the accumulation\<close>

text \<open>
  The file system as far as the pipeline touches it: the temporary files that exist (each
  known by the name \<open>NamedTemporaryFile\<close> gave it), the next unused name, and the raster
  written at \<open>output_path\<close>, if any.
\<close>

record world =
  temp_files :: "nat set"
  next_temp :: nat
  output_file :: "real grid option"

text \<open>
  \<open>NamedTemporaryFile(suffix=".tiff", delete=False)\<close> creates a file under a fresh name;
  leaving the \<open>with\<close> block closes it and, with \<open>delete=False\<close>, keeps it on disk.
\<close>

definition NamedTemporaryFile :: "world \<Rightarrow> nat \<times> world" where
  "NamedTemporaryFile w =
     (next_temp w, w\<lparr>temp_files := insert (next_temp w) (temp_files w),
                     next_temp := Suc (next_temp w)\<rparr>)"

definition os_remove :: "nat \<Rightarrow> world \<Rightarrow> world" where
  "os_remove name w = w\<lparr>temp_files := temp_files w - {name}\<rparr>"

text \<open>
  The collaborators are outside the repository, so what they do with one radar file is part
  of the input: whether \<open>os.path.exists\<close> holds, whether \<open>crop_tiff_to_campania\<close> and
  \<open>align_radar_to_dem\<close> return or raise, and what \<open>process_tiff\<close> makes of the aligned
  raster it reads (an exception or the runoff grid).
\<close>

record radar_file =
  path_exists :: bool
  crop_ok :: bool
  align_ok :: bool
  tiff_result :: "error + real grid"

definition process_radar_file :: "radar_file \<Rightarrow> world \<Rightarrow> real grid option \<times> world" where
  "process_radar_file file w =
     (case NamedTemporaryFile w of (cropped_tiff, w1) \<Rightarrow>
        if \<not> crop_ok file then (None, w1)
        else
          (case NamedTemporaryFile w1 of (aligned_tiff, w2) \<Rightarrow>
             if \<not> align_ok file then (None, w2)
             else
               (case tiff_result file of
                  Inl e \<Rightarrow> (None, w2)
                | Inr runoff \<Rightarrow> (Some runoff, os_remove aligned_tiff (os_remove cropped_tiff w2)))))"





text \<open>Radar files for the examples, and a file system without temporary files or output.\<close>

definition empty_world :: world where
  "empty_world = \<lparr>temp_files = {}, next_temp = 0, output_file = None\<rparr>"

definition example_runoff :: "real grid" where
  "example_runoff = of_rows [[1, 2], [3, 4]]"


definition good_file :: radar_file where
  "good_file = \<lparr>path_exists = True, crop_ok = True, align_ok = True,
     tiff_result = Inr example_runoff\<rparr>"

definition crop_failure :: radar_file where
  "crop_failure = good_file\<lparr>crop_ok := False\<rparr>"

definition align_failure :: radar_file where
  "align_failure = good_file\<lparr>align_ok := False\<rparr>"

definition runoff_failure :: radar_file where
  "runoff_failure = good_file\<lparr>tiff_result := Inl ValueError\<rparr>"



section \<open>Tiled flow direction\<close>

text \<open>
  A rasterio window, and \<open>src.read(1, window=window)\<close> for a window inside the raster: the
  cells of the window, as an array of the window's height and width. The block windows of
  the source raster are given by rasterio and are a parameter here.
\<close>

record window =
  col_off :: nat
  row_off :: nat
  width :: nat
  height :: nat

definition read_window :: "'a grid \<Rightarrow> window \<Rightarrow> 'a grid" where
  "read_window src win =
     \<lparr>nrows = height win, ncols = width win,
      cell = (\<lambda>r c. cell src (row_off win + r) (col_off win + c))\<rparr>"

definition process_window :: "window \<times> fl grid \<times> nat grid \<Rightarrow> error + window \<times> 8 word grid" where
  "process_window args =
     (case args of (win, data, msk) \<Rightarrow>
        (case calculate_flow_direction data msk of
           Inl e \<Rightarrow> Inl e
         | Inr flow_dir \<Rightarrow> Inr (win, flow_dir)))"

text \<open>\<open>pool.map\<close>: the results in the order of the arguments; an exception of a worker is raised.\<close>

fun pool_map :: "('a \<Rightarrow> error + 'b) \<Rightarrow> 'a list \<Rightarrow> error + 'b list" where
  "pool_map f [] = Inr []"
| "pool_map f (x # xs) =
     (case f x of
        Inl e \<Rightarrow> Inl e
      | Inr y \<Rightarrow> (case pool_map f xs of Inl e \<Rightarrow> Inl e | Inr ys \<Rightarrow> Inr (y # ys)))"

text \<open>
  \<open>calculate_flow_direction_parallel\<close> up to its list \<open>results\<close>, each element of which it
  hands to \<open>dst.write(result, 1, window=window)\<close>: the windows are read as they are and
  every worker call gets the whole mask.
\<close>

definition calculate_flow_direction_parallel_results ::
  "fl grid \<Rightarrow> window list \<Rightarrow> nat grid \<Rightarrow> error + (window \<times> 8 word grid) list" where
  "calculate_flow_direction_parallel_results src windows msk =
     (let data = map (read_window src) windows
      in pool_map process_window (zip windows (zip data (replicate (length windows) msk))))"

text \<open>
  A raster of 6 rows and 3 columns stored in two strips of 3 rows, and its mask, which is
  sea at the cell left of the centre of the second strip.
\<close>

definition striped_elevation :: "fl grid" where
  "striped_elevation =
     of_rows [[Val 20, Val 20, Val 20],
              [Val 20, Val 10, Val 20],
              [Val 20, Val 8, Val 20],
              [Val 20, Val 7, Val 20],
              [Val 9, Val 10, Val 5],
              [Val 20, Val 20, Val 20]]"

definition striped_mask :: "nat grid" where
  "striped_mask =
     of_rows [[1, 1, 1], [1, 1, 1], [1, 1, 1], [1, 1, 1], [0, 1, 1], [1, 1, 1]]"

definition upper_strip :: window where
  "upper_strip = \<lparr>col_off = 0, row_off = 0, width = 3, height = 3\<rparr>"

definition lower_strip :: window where
  "lower_strip = \<lparr>col_off = 0, row_off = 3, width = 3, height = 3\<rparr>"

section \<open>Normalisation in binary32 arithmetic\<close>

text \<open>
  \<open>compute_flood_risk\<close> converts both of its arrays with \<open>astype(np.float32)\<close> before it
  calls \<open>normalize\<close>, and numpy evaluates the arithmetic of a \<open>float32\<close> array in
  \<open>float32\<close>: every operation returns the exact result rounded to the nearest binary32
  number, ties to even. Whether a quotient can be exactly 1 depends on that rounding, so here
  it is written out. A binary32 number has a significand of 24 bits: in the binade
  \<open>2 ^ e \<le> |x| < 2 ^ (e + 1)\<close> the representable numbers are the multiples of
  \<open>2 ^ (e - 23)\<close>. The exponent range is not bounded here, which is binary32 for results
  within its normal range (no overflow, no subnormal numbers).

  The Python scalar \<open>1e-6\<close> is converted to \<open>float32\<close> when it is added to the \<open>float32\<close>
  scalar \<open>max - min\<close> (the promotion rules of NumPy 2). Under the older rules that sum is
  formed in binary64 and rounded to binary32 when the array is divided by it; for the grid
  of the example below the divisor is 128 either way.
\<close>

text \<open>
  The exponent \<open>e\<close> of the binade of \<open>x \<noteq> 0\<close>, computed from the number of binary digits
  of the integer part of \<open>|x|\<close>, or of \<open>1 / |x|\<close> when \<open>|x| < 1\<close>.
\<close>

definition binade :: "real \<Rightarrow> int" where
  "binade x =
     (if 1 \<le> \<bar>x\<bar> then int (floorlog 2 (nat \<lfloor>\<bar>x\<bar>\<rfloor>)) - 1
      else - int (floorlog 2 (nat (\<lceil>1 / \<bar>x\<bar>\<rceil> - 1))))"

definition round_half_even :: "real \<Rightarrow> int" where
  "round_half_even y =
     (let n = \<lfloor>y\<rfloor> in
      if y - of_int n < 1 / 2 then n
      else if 1 / 2 < y - of_int n then n + 1
      else if even n then n else n + 1)"

definition ulp32 :: "real \<Rightarrow> real" where
  "ulp32 x = 2 powi (binade x - 23)"

definition round32 :: "real \<Rightarrow> real" where
  "round32 x = (if x = 0 then 0 else ulp32 x * of_int (round_half_even (x / ulp32 x)))"



section \<open>Basic facts\<close>

lemma all_less_2: "(\<forall>i < (2::nat). P i) \<longleftrightarrow> P 0 \<and> P 1"
  by (auto simp: less_Suc_eq numeral_2_eq_2)

lemma all_less_3: "(\<forall>i < (3::nat). P i) \<longleftrightarrow> P 0 \<and> P 1 \<and> P 2"
  by (auto simp: less_Suc_eq numeral_3_eq_3 numeral_2_eq_2)

section \<open>Properties of the flow-direction solver\<close>

lemma py_index_nat [simp]: "py_index n (int k) = (if k < n then Inr k else Inl IndexError)"
  by (simp add: py_index_def)


lemma get2_nat: "get2 g (int r) (int c) = (if r < nrows g \<and> c < ncols g then Inr (cell g r c) else Inl IndexError)"
  by (simp add: get2_def)

lemma get2_in_range:
  "0 \<le> i \<Longrightarrow> i < int (nrows g) \<Longrightarrow> 0 \<le> j \<Longrightarrow> j < int (ncols g) \<Longrightarrow>
   get2 g i j = Inr (cell g (nat i) (nat j))"
  by (simp add: get2_def py_index_def)

lemma candidates_of_Nil: "candidates_of w m r c center [] = []"
  by (simp add: candidates_of_def)

lemma candidates_of_Cons:
  "candidates_of w m r c center ((i, dr, dc) # offs) =
     (case cell w (nat (int r + dr)) (nat (int c + dc)) of
        NaN \<Rightarrow> []
      | Val neighbor \<Rightarrow>
          if cell m (nat (int r + dr)) (nat (int c + dc)) = 1 \<and> center - neighbor > 0
          then [(center - neighbor, D8_VALUES ! i)] else [])
     @ candidates_of w m r c center offs"
  by (simp add: candidates_of_def)

lemma keep_min_pair:
  "keep_min (md, dir) (d, v) =
     (if (case md of None \<Rightarrow> True | Some x \<Rightarrow> d < x) then (Some d, v) else (md, dir))"
  by (cases md) (simp_all add: keep_min_def)

lemma neighbor_loop_fold:
  assumes "1 \<le> r" "r + 1 < nrows w" "1 \<le> c" "c + 1 < ncols w"
    and "nrows w \<le> nrows m" "ncols w \<le> ncols m"
    and "\<forall>(i, dr, dc) \<in> set offs. - 1 \<le> dr \<and> dr \<le> 1 \<and> - 1 \<le> dc \<and> dc \<le> 1"
  shows "neighbor_loop w m r c center offs st =
         Inr (foldl keep_min st (candidates_of w m r c center offs))"
  using assms(7)
proof (induction offs arbitrary: st)
  case Nil
  then show ?case by (simp add: candidates_of_Nil)
next
  case (Cons x offs)
  obtain i dr dc where x: "x = (i, dr, dc)" by (cases x) auto
  obtain md dir where st: "st = (md, dir)" by (cases st) auto
  from Cons.prems x have b: "- 1 \<le> dr" "dr \<le> 1" "- 1 \<le> dc" "dc \<le> 1" by auto
  have gw: "get2 w (int r + dr) (int c + dc) = Inr (cell w (nat (int r + dr)) (nat (int c + dc)))"
    using assms(1-4) b by (intro get2_in_range) auto
  have gm: "get2 m (int r + dr) (int c + dc) = Inr (cell m (nat (int r + dr)) (nat (int c + dc)))"
    using assms(1-6) b by (intro get2_in_range) auto
  have IH: "\<And>st. neighbor_loop w m r c center offs st =
         Inr (foldl keep_min st (candidates_of w m r c center offs))"
    using Cons by auto
  show ?case
    unfolding x st
    by (simp add: gw gm IH candidates_of_Cons keep_min_pair Let_def split: fl.splits option.splits)
qed

lemma D8_offsets_bounded:
  "\<forall>(i, dr, dc) \<in> set (enumerate 0 D8_OFFSETS). - 1 \<le> dr \<and> dr \<le> 1 \<and> - 1 \<le> dc \<and> dc \<le> 1"
  by (simp add: D8_OFFSETS_def)




lemma cell_direction_interior:
  assumes "1 \<le> r" "r + 1 < nrows w" "1 \<le> c" "c + 1 < ncols w"
    and "nrows w \<le> nrows m" "ncols w \<le> ncols m"
  shows "cell_direction w m r c =
     Inr (if cell m r c = 0 then None
          else (case cell w r c of
                  NaN \<Rightarrow> None
                | Val center \<Rightarrow> Some (snd (foldl keep_min (None, 0) (candidates w m r c center)))))"
proof -
  have nl: "neighbor_loop w m r c center (enumerate 0 D8_OFFSETS) (None, 0) =
      Inr (foldl keep_min (None, 0) (candidates w m r c center))" for center
    unfolding candidates_def
    by (rule neighbor_loop_fold [OF assms D8_offsets_bounded])
  have gm: "get2 m (int r) (int c) = Inr (cell m r c)"
    using assms by (simp add: get2_nat)
  have gw: "get2 w (int r) (int c) = Inr (cell w r c)"
    using assms by (simp add: get2_nat)
  show ?thesis
    by (simp add: cell_direction_def gm gw nl split: fl.splits prod.splits)
qed

lemma cell_set2 [simp]:
  "cell (set2 g r c v) r' c' = (if r' = r \<and> c' = c then v else cell g r' c')"
  "nrows (set2 g r c v) = nrows g" "ncols (set2 g r c v) = ncols g"
  by (simp_all add: set2_def)

lemma col_loop_result:
  assumes "1 \<le> r" "r + 1 < nrows w"
    and "nrows w \<le> nrows m" "ncols w \<le> ncols m"
    and "\<forall>c \<in> set cs. 1 \<le> c \<and> c + 1 < ncols w"
  shows "\<exists>fd'. col_loop w m r cs fd = Inr fd' \<and> nrows fd' = nrows fd \<and> ncols fd' = ncols fd \<and>
     (\<forall>r' c'. cell fd' r' c' =
        (if r' = r \<and> c' \<in> set cs
         then (case cell_direction w m r c' of Inr (Some v) \<Rightarrow> v | _ \<Rightarrow> cell fd r' c')
         else cell fd r' c'))"
  using assms(5)
proof (induction cs arbitrary: fd)
  case Nil
  then show ?case by simp
next
  case (Cons c cs)
  then have c: "1 \<le> c" "c + 1 < ncols w" and cs: "\<forall>c \<in> set cs. 1 \<le> c \<and> c + 1 < ncols w"
    by auto
  obtain x where cd: "cell_direction w m r c = Inr x"
    using cell_direction_interior [OF assms(1,2) c assms(3,4)] by blast
  show ?case
  proof (cases x)
    case None
    from Cons.IH [OF cs, of fd] obtain fd' where fd': "col_loop w m r cs fd = Inr fd'"
      "nrows fd' = nrows fd" "ncols fd' = ncols fd"
      "\<forall>r' c'. cell fd' r' c' =
        (if r' = r \<and> c' \<in> set cs
         then (case cell_direction w m r c' of Inr (Some v) \<Rightarrow> v | _ \<Rightarrow> cell fd r' c')
         else cell fd r' c')" by blast
    show ?thesis
      using fd' cd None by auto
  next
    case (Some v)
    from Cons.IH [OF cs, of "set2 fd r c v"] obtain fd' where fd':
      "col_loop w m r cs (set2 fd r c v) = Inr fd'"
      "nrows fd' = nrows fd" "ncols fd' = ncols fd"
      "\<forall>r' c'. cell fd' r' c' =
        (if r' = r \<and> c' \<in> set cs
         then (case cell_direction w m r c' of Inr (Some v) \<Rightarrow> v | _ \<Rightarrow> cell (set2 fd r c v) r' c')
         else cell (set2 fd r c v) r' c')" by auto
    show ?thesis
      using fd' cd Some by (auto split: sum.splits option.splits)
  qed
qed

lemma row_loop_result:
  assumes "nrows w \<le> nrows m" "ncols w \<le> ncols m"
    and "\<forall>c \<in> set cs. 1 \<le> c \<and> c + 1 < ncols w"
    and "\<forall>r \<in> set rs. 1 \<le> r \<and> r + 1 < nrows w"
  shows "\<exists>fd'. row_loop w m rs cs fd = Inr fd' \<and> nrows fd' = nrows fd \<and> ncols fd' = ncols fd \<and>
     (\<forall>r' c'. cell fd' r' c' =
        (if r' \<in> set rs \<and> c' \<in> set cs
         then (case cell_direction w m r' c' of Inr (Some v) \<Rightarrow> v | _ \<Rightarrow> cell fd r' c')
         else cell fd r' c'))"
  using assms(4)
proof (induction rs arbitrary: fd)
  case Nil
  then show ?case by simp
next
  case (Cons r rs)
  then have r: "1 \<le> r" "r + 1 < nrows w" and rs: "\<forall>r \<in> set rs. 1 \<le> r \<and> r + 1 < nrows w"
    by auto
  from col_loop_result [OF r assms(1,2,3), of fd] obtain fd1 where fd1:
    "col_loop w m r cs fd = Inr fd1" "nrows fd1 = nrows fd" "ncols fd1 = ncols fd"
    "\<forall>r' c'. cell fd1 r' c' =
        (if r' = r \<and> c' \<in> set cs
         then (case cell_direction w m r c' of Inr (Some v) \<Rightarrow> v | _ \<Rightarrow> cell fd r' c')
         else cell fd r' c')" by blast
  from Cons.IH [OF rs, of fd1] obtain fd' where fd':
    "row_loop w m rs cs fd1 = Inr fd'" "nrows fd' = nrows fd1" "ncols fd' = ncols fd1"
    "\<forall>r' c'. cell fd' r' c' =
        (if r' \<in> set rs \<and> c' \<in> set cs
         then (case cell_direction w m r' c' of Inr (Some v) \<Rightarrow> v | _ \<Rightarrow> cell fd1 r' c')
         else cell fd1 r' c')" by blast
  show ?case
    using fd1 fd' by (auto split: sum.splits option.splits)
qed

lemma flow_dir_full_result:
  assumes "nrows w \<le> nrows m" "ncols w \<le> ncols m"
  shows "\<exists>fd. flow_dir_full w m = Inr fd \<and> nrows fd = nrows w \<and> ncols fd = ncols w \<and>
     (\<forall>r c. cell fd r c =
        (if 1 \<le> r \<and> r + 1 < nrows w \<and> 1 \<le> c \<and> c + 1 < ncols w then code_at w m r c else 0))"
proof -
  have cs: "\<forall>c \<in> set [1..<ncols w - 1]. 1 \<le> c \<and> c + 1 < ncols w" by auto
  have rs: "\<forall>r \<in> set [1..<nrows w - 1]. 1 \<le> r \<and> r + 1 < nrows w" by auto
  from row_loop_result [OF assms cs rs, of "zeros_like w 0"] obtain fd where fd:
    "row_loop w m [1..<nrows w - 1] [1..<ncols w - 1] (zeros_like w 0) = Inr fd"
    "nrows fd = nrows (zeros_like w (0 :: 8 word))" "ncols fd = ncols (zeros_like w (0 :: 8 word))"
    "\<forall>r' c'. cell fd r' c' =
        (if r' \<in> set [1..<nrows w - 1] \<and> c' \<in> set [1..<ncols w - 1]
         then (case cell_direction w m r' c' of Inr (Some v) \<Rightarrow> v | _ \<Rightarrow> cell (zeros_like w 0) r' c')
         else cell (zeros_like w 0) r' c')" by blast
  have "cell fd r c =
        (if 1 \<le> r \<and> r + 1 < nrows w \<and> 1 \<le> c \<and> c + 1 < ncols w then code_at w m r c else 0)" for r c
    using fd(4) by (auto simp: zeros_like_def code_at_def split: sum.splits option.splits)
  with fd(1-3) show ?thesis
    by (simp add: flow_dir_full_def Let_def zeros_like_def)
qed




text \<open>
  C8. For a window of shape rows \<times> cols with rows, cols \<ge> 2 and a mask of the same shape the
  solver returns a grid of shape (rows - 2) \<times> (cols - 2) whose cell \<open>(i, j)\<close> is the code of
  the interior cell \<open>(i + 1, j + 1)\<close>; the border cells of \<open>flow_dir\<close> are never assigned
  (they hold the initial 0) and are cut off by the slice.
\<close>

theorem calculate_flow_direction_interior_only:
  assumes "2 \<le> nrows w" "2 \<le> ncols w" "shape m = shape w"
  shows "\<exists>out fd. calculate_flow_direction w m = Inr out \<and> flow_dir_full w m = Inr fd \<and>
     shape out = (nrows w - 2, ncols w - 2) \<and>
     (\<forall>i < nrows w - 2. \<forall>j < ncols w - 2. cell out i j = code_at w m (i + 1) (j + 1)) \<and>
     (\<forall>r < nrows w. \<forall>c < ncols w.
        r = 0 \<or> r = nrows w - 1 \<or> c = 0 \<or> c = ncols w - 1 \<longrightarrow> cell fd r c = 0)"
proof -
  from assms(3) have sh: "nrows w \<le> nrows m" "ncols w \<le> ncols m"
    by (simp_all add: shape_def)
  from flow_dir_full_result [OF sh] obtain fd where fd: "flow_dir_full w m = Inr fd"
    "nrows fd = nrows w" "ncols fd = ncols w"
    "\<forall>r c. cell fd r c =
        (if 1 \<le> r \<and> r + 1 < nrows w \<and> 1 \<le> c \<and> c + 1 < ncols w then code_at w m r c else 0)"
    by blast
  have out: "calculate_flow_direction w m = Inr (interior fd)"
    by (simp add: calculate_flow_direction_def fd(1))
  have s: "shape (interior fd) = (nrows w - 2, ncols w - 2)"
    by (simp add: shape_def interior_def fd)
  have i: "cell (interior fd) i j = code_at w m (i + 1) (j + 1)"
    if "i < nrows w - 2" "j < ncols w - 2" for i j
    using that fd(4) by (auto simp: interior_def)
  have b: "cell fd r c = 0"
    if "r < nrows w" "c < ncols w" "r = 0 \<or> r = nrows w - 1 \<or> c = 0 \<or> c = ncols w - 1" for r c
    using that fd(4) by auto
  from out fd(1) s i b show ?thesis by blast
qed


lemma example_window_simps: "nrows example_window = 3" "ncols example_window = 3" "nrows example_mask = 3" "ncols example_mask = 3" "shape example_mask = shape example_window"
  "cell example_mask 1 1 = 1" "cell example_window 1 1 = Val 10"
  by (simp_all add: example_window_def example_mask_def of_rows_def shape_def)



theorem calculate_flow_direction_interior_only_witness:
  "2 \<le> nrows example_window \<and> 2 \<le> ncols example_window \<and> shape example_mask = shape example_window \<and>
   (\<exists>out fd. calculate_flow_direction example_window example_mask = Inr out \<and> flow_dir_full example_window example_mask = Inr fd \<and>
      shape out = (1, 1) \<and> cell out 0 0 = code_at example_window example_mask 1 1 \<and>
      cell fd 0 0 = 0 \<and> cell fd 0 1 = 0 \<and> cell fd 1 2 = 0 \<and> cell fd 2 2 = 0)"
proof -
  have h: "2 \<le> nrows example_window" "2 \<le> ncols example_window" by (simp_all add: example_window_simps)
  from calculate_flow_direction_interior_only [OF h example_window_simps(5)]
  obtain out fd where o: "calculate_flow_direction example_window example_mask = Inr out" "flow_dir_full example_window example_mask = Inr fd"
    "shape out = (nrows example_window - 2, ncols example_window - 2)"
    "\<forall>i < nrows example_window - 2. \<forall>j < ncols example_window - 2. cell out i j = code_at example_window example_mask (i + 1) (j + 1)"
    "\<forall>r < nrows example_window. \<forall>c < ncols example_window.
        r = 0 \<or> r = nrows example_window - 1 \<or> c = 0 \<or> c = ncols example_window - 1 \<longrightarrow> cell fd r c = 0"
    by blast
  from o(4) have "cell out 0 0 = code_at example_window example_mask 1 1" by (simp add: example_window_simps)
  moreover have "cell fd 0 0 = 0" "cell fd 0 1 = 0" "cell fd 1 2 = 0" "cell fd 2 2 = 0"
    using o(5) [rule_format, of 0 0] o(5) [rule_format, of 0 1] o(5) [rule_format, of 1 2]
      o(5) [rule_format, of 2 2]
    by (simp_all add: example_window_simps)
  ultimately show ?thesis using o(1-3) h example_window_simps by auto
qed


section \<open>Properties of the runoff model\<close>


lemma bind_err_Inr [simp]: "bind_err (Inr v) f = f v"
  by (simp add: bind_err_def)

lemma bind_err_Inl [simp]: "bind_err (Inl e) f = Inl e"
  by (simp add: bind_err_def)

lemma bind_err_eq_Inr: "bind_err x f = Inr y \<longleftrightarrow> (\<exists>v. x = Inr v \<and> f v = Inr y)"
  by (cases x) simp_all

lemma bidx_in_range: "i < n \<Longrightarrow> bidx n i = i"
  by (auto simp: bidx_def)

lemma bdim_same [simp]: "bdim a a = Inr a"
  by (simp add: bdim_def)

lemma bdim_absorb: "bdim a b = Inr n \<Longrightarrow> bdim n b = Inr n"
  by (auto simp: bdim_def split: if_splits)

lemma bdim_absorb': "bdim a b = Inr n \<Longrightarrow> bdim n a = Inr n"
  by (auto simp: bdim_def split: if_splits)

lemma broadcast_shape_same [simp]: "broadcast_shape s s = Inr s"
  by (simp add: broadcast_shape_def)

lemma broadcast_shape_absorb: "broadcast_shape s t = Inr u \<Longrightarrow> broadcast_shape u t = Inr u"
  by (auto simp: broadcast_shape_def bind_err_eq_Inr dest: bdim_absorb)

lemma broadcast_shape_absorb': "broadcast_shape s t = Inr u \<Longrightarrow> broadcast_shape u s = Inr u"
  by (auto simp: broadcast_shape_def bind_err_eq_Inr dest: bdim_absorb')

lemma broadcast2_eq_Inr:
  "broadcast2 f x y = Inr g \<longleftrightarrow>
     (\<exists>s. broadcast_shape (shape x) (shape y) = Inr s \<and>
        g = \<lparr>nrows = fst s, ncols = snd s, cell = (\<lambda>i j. f (bcell x i j) (bcell y i j))\<rparr>)"
  by (auto simp: broadcast2_def bind_err_eq_Inr)

lemma bool_index_eq_Inr: "bool_index a b = Inr u \<longleftrightarrow> shape b = shape a"
  by (simp add: bool_index_def)

lemma bcell_in_range: "i < nrows g \<Longrightarrow> j < ncols g \<Longrightarrow> bcell g i j = cell g i j"
  by (simp add: bcell_def bidx_in_range)

text \<open>The cell of the result, from the cells of the three inputs as broadcast.\<close>

lemma compute_runoff_success:
  assumes s1: "broadcast_shape (shape cn) (shape m) = Inr s"
    and s2: "broadcast_shape (shape m) (shape p) = Inr s"
  shows "\<exists>out. compute_runoff p cn m = Inr out \<and> shape out = s \<and>
    (\<forall>i < fst s. \<forall>j < snd s. cell out i j =
       (if valid_cell (precipitation_cell (bcell m i j) (bcell p i j))
             (S_cell (cn_cell (bcell cn i j) (bcell m i j))) (bcell m i j)
        then runoff_cell (precipitation_cell (bcell m i j) (bcell p i j))
             (S_cell (cn_cell (bcell cn i j) (bcell m i j)))
        else 0) * real (bcell m i j))"
proof -
  define cn' where "cn' = \<lparr>nrows = fst s, ncols = snd s,
     cell = (\<lambda>i j. cn_cell (bcell cn i j) (bcell m i j))\<rparr>"
  define p' where "p' = \<lparr>nrows = fst s, ncols = snd s,
     cell = (\<lambda>i j. precipitation_cell (bcell m i j) (bcell p i j))\<rparr>"
  define S where "S = gmap S_cell cn'"
  define runoff where "runoff = zeros_like p' (0 :: real)"
  define above where "above = \<lparr>nrows = fst s, ncols = snd s,
     cell = (\<lambda>i j. bcell p' i j > 0.2 * bcell S i j)\<rparr>"
  define valid_mask where "valid_mask = \<lparr>nrows = fst s, ncols = snd s,
     cell = (\<lambda>i j. bcell above i j \<and> bcell m i j = 1)\<rparr>"
  define runoff' where "runoff' = runoff\<lparr>cell := (\<lambda>i j.
           if cell valid_mask i j then runoff_cell (cell p' i j) (cell S i j)
           else cell runoff i j)\<rparr>"
  define out where "out = \<lparr>nrows = fst s, ncols = snd s,
     cell = (\<lambda>i j. bcell runoff' i j * real (bcell m i j))\<rparr>"
  have sh: "shape cn' = s" "shape p' = s" "shape S = s" "shape runoff = s" "shape above = s"
    "shape valid_mask = s" "shape runoff' = s"
    by (simp_all add: shape_def cn'_def p'_def S_def gmap_def runoff_def zeros_like_def above_def
        valid_mask_def runoff'_def)
  have b1: "broadcast2 cn_cell cn m = Inr cn'"
    by (simp add: broadcast2_eq_Inr s1 cn'_def)
  have b2: "broadcast2 precipitation_cell m p = Inr p'"
    by (simp add: broadcast2_eq_Inr s2 p'_def)
  have b3: "broadcast2 (\<lambda>p s. p > 0.2 * s) p' S = Inr above"
    by (simp add: broadcast2_eq_Inr sh above_def)
  have sm: "broadcast_shape s (shape m) = Inr s"
    using broadcast_shape_absorb [OF s1] .
  have b4: "broadcast2 (\<lambda>a mv. a \<and> mv = 1) above m = Inr valid_mask"
    by (simp add: broadcast2_eq_Inr sh sm valid_mask_def)
  have b5: "bool_index p' valid_mask = Inr ()" "bool_index S valid_mask = Inr ()"
    "bool_index runoff valid_mask = Inr ()"
    by (simp_all add: bool_index_def sh)
  have b6: "broadcast2 (\<lambda>x mv. x * real mv) runoff' m = Inr out"
    by (simp add: broadcast2_eq_Inr sh sm out_def)
  have res: "compute_runoff p cn m = Inr out"
    unfolding compute_runoff_def b1 b2 bind_err_Inr Let_def S_def [symmetric]
      runoff_def [symmetric] b3 b4 b5 runoff'_def [symmetric] b6 ..
  have rng: "nrows g = fst s \<Longrightarrow> ncols g = snd s \<Longrightarrow> i < fst s \<Longrightarrow> j < snd s \<Longrightarrow>
      bcell g i j = cell g i j" for g :: "'x grid" and i j
    by (simp add: bcell_in_range)
  have cells: "cell out i j =
       (if valid_cell (precipitation_cell (bcell m i j) (bcell p i j))
             (S_cell (cn_cell (bcell cn i j) (bcell m i j))) (bcell m i j)
        then runoff_cell (precipitation_cell (bcell m i j) (bcell p i j))
             (S_cell (cn_cell (bcell cn i j) (bcell m i j)))
        else 0) * real (bcell m i j)" if "i < fst s" "j < snd s" for i j
  proof -
    have r1: "bcell runoff' i j = cell runoff' i j"
      using that by (intro rng) (simp_all add: runoff'_def runoff_def zeros_like_def p'_def)
    have r2: "bcell above i j = cell above i j"
      using that by (intro rng) (simp_all add: above_def)
    have r3: "bcell p' i j = cell p' i j"
      using that by (intro rng) (simp_all add: p'_def)
    have r4: "bcell S i j = cell S i j"
      using that by (intro rng) (simp_all add: S_def gmap_def cn'_def)
    have e1: "cell out i j = cell runoff' i j * real (bcell m i j)"
      by (simp add: out_def r1)
    have e2: "cell runoff' i j =
        (if cell valid_mask i j then runoff_cell (cell p' i j) (cell S i j) else 0)"
      by (simp add: runoff'_def runoff_def zeros_like_def)
    have e3: "cell valid_mask i j = (cell above i j \<and> bcell m i j = 1)"
      by (simp add: valid_mask_def r2)
    have e4: "cell above i j = (cell p' i j > 0.2 * cell S i j)"
      unfolding r3 [symmetric] r4 [symmetric] by (simp add: above_def)
    have e5: "cell p' i j = precipitation_cell (bcell m i j) (bcell p i j)"
      by (simp add: p'_def)
    have e6: "cell S i j = S_cell (cn_cell (bcell cn i j) (bcell m i j))"
      by (simp add: S_def gmap_def cn'_def)
    show ?thesis
      unfolding e1 e2 e3 e4 e5 e6 valid_cell_def ..
  qed
  from res cells show ?thesis by (auto simp: out_def shape_def)
qed

lemma compute_runoff_Inr_shapes:
  assumes "compute_runoff p cn m = Inr out"
  shows "\<exists>s. broadcast_shape (shape cn) (shape m) = Inr s \<and>
     broadcast_shape (shape m) (shape p) = Inr s"
proof -
  from assms obtain cn' p' above valid_mask where
    b1: "broadcast2 cn_cell cn m = Inr cn'" and
    b2: "broadcast2 precipitation_cell m p = Inr p'" and
    b3: "broadcast2 (\<lambda>p s. p > 0.2 * s) p' (gmap S_cell cn') = Inr above" and
    b4: "broadcast2 (\<lambda>a mv. a \<and> mv = 1) above m = Inr valid_mask" and
    i1: "shape valid_mask = shape p'" and
    i2: "shape valid_mask = shape (gmap S_cell cn')"
    unfolding compute_runoff_def Let_def bind_err_eq_Inr bool_index_eq_Inr by blast
  from b1 obtain s1 where s1: "broadcast_shape (shape cn) (shape m) = Inr s1" "shape cn' = s1"
    by (auto simp: broadcast2_eq_Inr shape_def)
  from b2 obtain s2 where s2: "broadcast_shape (shape m) (shape p) = Inr s2" "shape p' = s2"
    by (auto simp: broadcast2_eq_Inr shape_def)
  have "shape (gmap S_cell cn') = shape cn'"
    by (simp add: shape_def gmap_def)
  with i1 i2 s1 s2 have "s1 = s2" by simp
  with s1 s2 show ?thesis by simp
qed







text \<open>
  C4. Whenever \<open>compute_runoff\<close> returns a grid, every cell of it at which the mask (as
  numpy pairs it with that cell; the cell \<open>(i, j)\<close> of a mask of the same shape) is 0
  holds exactly 0, whatever the precipitation and the curve number are.
\<close>

theorem compute_runoff_sea_zero:
  assumes "compute_runoff p cn m = Inr out" "i < nrows out" "j < ncols out"
    and "bcell m i j = 0"
  shows "cell out i j = 0"
proof -
  from compute_runoff_Inr_shapes [OF assms(1)] obtain s where
    s: "broadcast_shape (shape cn) (shape m) = Inr s" "broadcast_shape (shape m) (shape p) = Inr s"
    by blast
  from compute_runoff_success [OF s] assms(1) have sh: "shape out = s" and
    c: "\<forall>i < fst s. \<forall>j < snd s. cell out i j =
       (if valid_cell (precipitation_cell (bcell m i j) (bcell p i j))
             (S_cell (cn_cell (bcell cn i j) (bcell m i j))) (bcell m i j)
        then runoff_cell (precipitation_cell (bcell m i j) (bcell p i j))
             (S_cell (cn_cell (bcell cn i j) (bcell m i j)))
        else 0) * real (bcell m i j)"
    by auto
  from sh assms(2,3) have "i < fst s" "j < snd s" by (auto simp: shape_def)
  with c assms(4) show ?thesis by simp
qed

text \<open>
  The shape of the result is fixed by the curve-number grid and the mask: two calls with
  the same two grids return grids of one shape, whatever the precipitation grids are.
\<close>

lemma compute_runoff_shape_fixed:
  assumes "compute_runoff p cn m = Inr out" "compute_runoff p' cn m = Inr out'"
  shows "shape out = shape out'"
proof -
  from compute_runoff_Inr_shapes [OF assms(1)] obtain s where
    s: "broadcast_shape (shape cn) (shape m) = Inr s" "broadcast_shape (shape m) (shape p) = Inr s"
    by blast
  from compute_runoff_Inr_shapes [OF assms(2)] obtain s' where
    s': "broadcast_shape (shape cn) (shape m) = Inr s'"
    "broadcast_shape (shape m) (shape p') = Inr s'"
    by blast
  from s(1) s'(1) have e: "s' = s" by simp
  from compute_runoff_success [OF s] assms(1) have "shape out = s" by auto
  moreover from compute_runoff_success [OF s'] assms(2) have "shape out' = s'" by auto
  ultimately show ?thesis using e by simp
qed









lemma scenario_shapes:
  "shape scenario_precipitation = (2, 2)" "shape scenario_cn = (2, 2)"
  "shape scenario_mask = (2, 2)" "shape single_cn = (1, 1)" "shape example_mask = (3, 3)"
  by (simp_all add: shape_def of_rows_def scenario_precipitation_def scenario_cn_def
      scenario_mask_def single_cn_def example_mask_def)

lemma scenario_cells:
  "cell scenario_precipitation 0 0 = 0" "cell scenario_precipitation 0 1 = 5"
  "cell scenario_precipitation 1 0 = 10" "cell scenario_precipitation 1 1 = 0"
  "cell scenario_mask 0 0 = 1" "cell scenario_mask 0 1 = 0"
  "cell scenario_mask 1 0 = 1" "cell scenario_mask 1 1 = 1"
  "cell scenario_cn 1 0 = 80"
  by (simp_all add: of_rows_def scenario_precipitation_def scenario_mask_def scenario_cn_def)


lemma scenario_runs:
  "\<exists>out. compute_runoff scenario_precipitation scenario_cn scenario_mask = Inr out \<and>
     shape out = (2, 2)"
proof -
  have "broadcast_shape (shape scenario_cn) (shape scenario_mask) = Inr (2, 2)"
    "broadcast_shape (shape scenario_mask) (shape scenario_precipitation) = Inr (2, 2)"
    by (simp_all add: scenario_shapes)
  from compute_runoff_success [OF this] show ?thesis by blast
qed

theorem compute_runoff_sea_zero_witness:
  "\<exists>out. compute_runoff scenario_precipitation scenario_cn scenario_mask = Inr out \<and>
     0 < nrows out \<and> 1 < ncols out \<and> bcell scenario_mask 0 1 = 0 \<and>
     cell scenario_precipitation 0 1 = 5 \<and> cell out 0 1 = 0"
proof -
  from scenario_runs obtain out where
    out: "compute_runoff scenario_precipitation scenario_cn scenario_mask = Inr out"
    and sh: "shape out = (2, 2)" by blast
  from sh have n: "0 < nrows out" "1 < ncols out" by (simp_all add: shape_def)
  have m: "bcell scenario_mask 0 1 = 0"
    by (simp add: bcell_def bidx_def scenario_mask_def of_rows_def)
  from compute_runoff_sea_zero [OF out n m] out n m scenario_cells(2) show ?thesis
    by blast
qed




section \<open>Properties of the normalisation\<close>


lemma fold_min_Min: "fold min xs (x::real) = Min (set (x # xs))"
  using Min.set_eq_fold [of x xs] by simp

lemma fold_max_Max: "fold max xs (x::real) = Max (set (x # xs))"
  using Max.set_eq_fold [of x xs] by simp

lemma set_cells_of: "set (cells_of g) = {cell g i j | i j. i < nrows g \<and> j < ncols g}"
  by (fastforce simp: cells_of_def)

lemma cells_of_nonempty: "0 < nrows g \<Longrightarrow> 0 < ncols g \<Longrightarrow> cells_of g \<noteq> []"
proof -
  assume "0 < nrows g" "0 < ncols g"
  then have "cell g 0 0 \<in> set (cells_of g)" unfolding set_cells_of by blast
  then show ?thesis by auto
qed

lemma np_min_Min:
  assumes "0 < nrows g" "0 < ncols g"
  shows "np_min g = Inr (Min (set (cells_of g)))"
proof -
  from cells_of_nonempty [OF assms] obtain x xs where c: "cells_of g = x # xs"
    by (cases "cells_of g") auto
  show ?thesis by (simp add: np_min_def c fold_min_Min)
qed

lemma np_max_Max:
  assumes "0 < nrows g" "0 < ncols g"
  shows "np_max g = Inr (Max (set (cells_of g)))"
proof -
  from cells_of_nonempty [OF assms] obtain x xs where c: "cells_of g = x # xs"
    by (cases "cells_of g") auto
  show ?thesis by (simp add: np_max_def c fold_max_Max)
qed

lemma normalize_nonempty:
  assumes "0 < nrows g" "0 < ncols g"
  shows "normalize g = Inr (gmap (\<lambda>x. (x - Min (set (cells_of g))) /
       (Max (set (cells_of g)) - Min (set (cells_of g)) + 1 / 10 ^ 6)) g)"
  by (simp add: normalize_def np_min_Min [OF assms] np_max_Max [OF assms] bind_err_def)

text \<open>
  C9. For a grid with at least one cell whose cells all hold the same value, \<open>normalize\<close>
  returns a grid of the same shape whose cells are all 0; the divisor is
  \<open>max - min + 1e-6 = 1e-6\<close>, not 0.
\<close>

theorem normalize_constant_grid:
  assumes "0 < nrows g" "0 < ncols g"
    and "\<forall>i < nrows g. \<forall>j < ncols g. cell g i j = v"
  shows "\<exists>out lo hi. normalize g = Inr out \<and> np_min g = Inr lo \<and> np_max g = Inr hi \<and>
     hi - lo + 1 / 10 ^ 6 = 1 / 10 ^ 6 \<and> shape out = shape g \<and>
     (\<forall>i < nrows g. \<forall>j < ncols g. cell out i j = 0)"
proof -
  have "set (cells_of g) = {v}"
    unfolding set_cells_of using assms by auto
  then have mm: "Min (set (cells_of g)) = v" "Max (set (cells_of g)) = v" by simp_all
  have n: "normalize g = Inr (gmap (\<lambda>x. (x - v) / (v - v + 1 / 10 ^ 6)) g)"
    using normalize_nonempty [OF assms(1,2)] by (simp only: mm)
  have c: "cell (gmap (\<lambda>x. (x - v) / (v - v + 1 / 10 ^ 6)) g) i j = 0"
    if "i < nrows g" "j < ncols g" for i j
    using that assms(3) by (simp add: gmap_def)
  have s: "shape (gmap (\<lambda>x. (x - v) / (v - v + 1 / 10 ^ 6)) g) = shape g"
    by (simp add: gmap_def shape_def)
  from n c s np_min_Min [OF assms(1,2)] np_max_Max [OF assms(1,2)] mm show ?thesis
    by auto
qed

lemma constant_grid_simps: "nrows constant_grid = 2" "ncols constant_grid = 3"
  by (simp_all add: constant_grid_def of_rows_def)

theorem normalize_constant_grid_witness:
  "0 < nrows constant_grid \<and> 0 < ncols constant_grid \<and>
   cell constant_grid 0 0 = 7 \<and> cell constant_grid 0 1 = 7 \<and> cell constant_grid 0 2 = 7 \<and>
   cell constant_grid 1 0 = 7 \<and> cell constant_grid 1 1 = 7 \<and> cell constant_grid 1 2 = 7 \<and>
   (\<exists>out. normalize constant_grid = Inr out \<and> shape out = (2, 3) \<and>
      cell out 0 0 = 0 \<and> cell out 0 1 = 0 \<and> cell out 0 2 = 0 \<and>
      cell out 1 0 = 0 \<and> cell out 1 1 = 0 \<and> cell out 1 2 = 0)"
proof -
  have h: "0 < nrows constant_grid" "0 < ncols constant_grid"
    by (simp_all add: constant_grid_simps)
  have c: "cell constant_grid 0 0 = 7" "cell constant_grid 0 1 = 7" "cell constant_grid 0 2 = 7"
    "cell constant_grid 1 0 = 7" "cell constant_grid 1 1 = 7" "cell constant_grid 1 2 = 7"
    by (simp_all add: constant_grid_def of_rows_def)
  have a: "\<forall>i < nrows constant_grid. \<forall>j < ncols constant_grid. cell constant_grid i j = 7"
    unfolding constant_grid_simps all_less_2 all_less_3 using c by simp
  from normalize_constant_grid [OF h a, unfolded constant_grid_simps all_less_2 all_less_3]
  obtain out where "normalize constant_grid = Inr out" "shape out = shape constant_grid"
    "cell out 0 0 = 0" "cell out 0 1 = 0" "cell out 0 2 = 0"
    "cell out 1 0 = 0" "cell out 1 1 = 0" "cell out 1 2 = 0"
    by blast
  with h c show ?thesis by (auto simp: shape_def constant_grid_simps)
qed


section \<open>Properties of the pipeline\<close>















text \<open>
  C7, on the code. When the crop fails the temporary file created for it is still on disk
  when \<open>process_radar_file\<close> returns; when the alignment or the runoff computation fails
  both temporary files are. Only the path on which all three steps succeed removes them.
\<close>

theorem process_radar_file_failure_leaves_temp_files:
  "process_radar_file crop_failure empty_world =
     (None, \<lparr>temp_files = {0}, next_temp = 1, output_file = None\<rparr>) \<and>
   process_radar_file align_failure empty_world =
     (None, \<lparr>temp_files = {0, 1}, next_temp = 2, output_file = None\<rparr>) \<and>
   process_radar_file runoff_failure empty_world =
     (None, \<lparr>temp_files = {0, 1}, next_temp = 2, output_file = None\<rparr>) \<and>
   process_radar_file good_file empty_world =
     (Some example_runoff, \<lparr>temp_files = {}, next_temp = 2, output_file = None\<rparr>)"
  by (auto simp: process_radar_file_def crop_failure_def align_failure_def runoff_failure_def
      good_file_def NamedTemporaryFile_def os_remove_def empty_world_def numeral_2_eq_2)

text \<open>On every path the files created are fresh; only the success path removes them.\<close>

lemma process_radar_file_temp_files:
  assumes "\<forall>n \<in> temp_files w. n < next_temp w"
  shows "temp_files (snd (process_radar_file f w)) =
     (if \<not> crop_ok f then insert (next_temp w) (temp_files w)
      else if \<not> align_ok f \<or> isl (tiff_result f)
      then insert (Suc (next_temp w)) (insert (next_temp w) (temp_files w))
      else temp_files w)"
  using assms
  by (auto simp: process_radar_file_def NamedTemporaryFile_def os_remove_def split: sum.splits)


section \<open>The tiled engine on a raster of two strips\<close>

lemmas d8_eval = calculate_flow_direction_def flow_dir_full_def interior_def shape_def
  zeros_like_def cell_direction_def get2_def py_index_def of_rows_def D8_OFFSETS_def
  D8_VALUES_def enumerate_eq_zip upt_rec set2_def

text \<open>
  Whatever the block is, its worker call returns a grid that is two rows and two columns smaller
  than the window it is written for, and whose codes are computed from the mask at the
  block's local indices.
\<close>

lemma process_window_result:
  assumes "height win \<le> nrows msk" "width win \<le> ncols msk"
  shows "\<exists>r. process_window (win, read_window src win, msk) = Inr (win, r) \<and>
     shape r = (height win - 2, width win - 2) \<and>
     (\<forall>i < height win - 2. \<forall>j < width win - 2.
        cell r i j = code_at (read_window src win) msk (i + 1) (j + 1))"
proof -
  let ?data = "read_window src win"
  have sh: "nrows ?data \<le> nrows msk" "ncols ?data \<le> ncols msk"
    using assms by (simp_all add: read_window_def)
  from flow_dir_full_result [OF sh] obtain fd where fd: "flow_dir_full ?data msk = Inr fd"
    "nrows fd = nrows ?data" "ncols fd = ncols ?data"
    "\<forall>r c. cell fd r c =
        (if 1 \<le> r \<and> r + 1 < nrows ?data \<and> 1 \<le> c \<and> c + 1 < ncols ?data
         then code_at ?data msk r c else 0)"
    by blast
  have d: "nrows ?data = height win" "ncols ?data = width win"
    by (simp_all add: read_window_def)
  have p: "process_window (win, ?data, msk) = Inr (win, interior fd)"
    by (simp add: process_window_def calculate_flow_direction_def fd(1))
  have s: "shape (interior fd) = (height win - 2, width win - 2)"
    using fd(2,3) d by (simp add: shape_def interior_def)
  have c: "cell (interior fd) i j = code_at ?data msk (i + 1) (j + 1)"
    if "i < height win - 2" "j < width win - 2" for i j
    using that fd(4) d by (auto simp: interior_def)
  from p s c show ?thesis by blast
qed

text \<open>
  C1, on the code. The solver run once over the whole 6 \<times> 3 raster gives the codes
  16, 16, 8, 1 for its four interior cells. The tiled engine reads each strip of 3 rows as
  it is, without a halo, and passes the whole mask, which the solver indexes with the
  strip's local coordinates. Each strip yields a 1 \<times> 1 result (for a window of 3 \<times> 3
  cells); the two interior cells next to the strip boundary are computed by no worker call; and
  the cell of the second strip gets the code 64 (west, a sea cell of the raster) where the
  run over the whole raster gives 1.
\<close>

theorem tile_results_differ_from_whole_grid:
  "(\<exists>whole. calculate_flow_direction striped_elevation striped_mask = Inr whole \<and>
      shape whole = (4, 1) \<and> cell whole 0 0 = 16 \<and> cell whole 1 0 = 16 \<and> cell whole 2 0 = 8 \<and>
      cell whole 3 0 = 1) \<and>
   (\<exists>r1 r2. calculate_flow_direction_parallel_results striped_elevation
          [upper_strip, lower_strip] striped_mask =
        Inr [(upper_strip, r1), (lower_strip, r2)] \<and>
      shape r1 = (1, 1) \<and> cell r1 0 0 = 16 \<and> shape r2 = (1, 1) \<and> cell r2 0 0 = 64)"
proof
  show "\<exists>whole. calculate_flow_direction striped_elevation striped_mask = Inr whole \<and>
      shape whole = (4, 1) \<and> cell whole 0 0 = 16 \<and> cell whole 1 0 = 16 \<and> cell whole 2 0 = 8 \<and>
      cell whole 3 0 = 1"
    by (simp add: d8_eval striped_elevation_def striped_mask_def)
  show "\<exists>r1 r2. calculate_flow_direction_parallel_results striped_elevation
          [upper_strip, lower_strip] striped_mask =
        Inr [(upper_strip, r1), (lower_strip, r2)] \<and>
      shape r1 = (1, 1) \<and> cell r1 0 0 = 16 \<and> shape r2 = (1, 1) \<and> cell r2 0 0 = 64"
    by (simp add: calculate_flow_direction_parallel_results_def process_window_def
        read_window_def upper_strip_def lower_strip_def d8_eval striped_elevation_def
        striped_mask_def)
qed

section \<open>Properties of the normalisation in binary32 arithmetic\<close>


lemma floor_log_eqI:
  assumes "2 powr of_int e \<le> x" "x < 2 powr (of_int e + 1)"
  shows "\<lfloor>log 2 x\<rfloor> = e"
proof -
  have x: "0 < x" using assms(1) by (smt (verit) powr_gt_zero)
  have "of_int e \<le> log 2 x" using assms(1) x by (simp add: le_log_iff)
  moreover have "log 2 x < of_int e + 1" using assms(2) x by (simp add: log_less_iff)
  ultimately show ?thesis by (simp add: floor_eq_iff)
qed

lemma binade_log:
  assumes "x \<noteq> 0"
  shows "binade x = \<lfloor>log 2 \<bar>x\<bar>\<rfloor>"
proof (cases "1 \<le> \<bar>x\<bar>")
  case True
  define n where "n = nat \<lfloor>\<bar>x\<bar>\<rfloor>"
  define k where "k = floorlog 2 n"
  have n: "0 < n" using True by (simp add: n_def)
  from floorlog_bounds [OF n, of 2] have b: "2 ^ (k - 1) \<le> n" "n < 2 ^ k"
    by (simp_all add: k_def)
  have k: "0 < k" using n by (simp add: k_def floorlog_def)
  have rn: "real n \<le> \<bar>x\<bar>" "\<bar>x\<bar> < real n + 1"
    using True by (simp_all add: n_def)
  have lo: "(2::real) ^ (k - 1) \<le> \<bar>x\<bar>"
  proof -
    have "(2::real) ^ (k - 1) \<le> real n" using b(1) by (metis of_nat_le_iff of_nat_numeral of_nat_power)
    with rn(1) show ?thesis by linarith
  qed
  have hi: "\<bar>x\<bar> < (2::real) ^ k"
  proof -
    have "n + 1 \<le> 2 ^ k" using b(2) by simp
    then have "real (n + 1) \<le> (2::real) ^ k" by (metis of_nat_le_iff of_nat_numeral of_nat_power)
    with rn(2) show ?thesis by simp
  qed
  have e: "real_of_int (int k - 1) = real (k - 1)" using k by (simp add: of_nat_diff)
  have "\<lfloor>log 2 \<bar>x\<bar>\<rfloor> = int k - 1"
  proof (rule floor_log_eqI)
    show "2 powr real_of_int (int k - 1) \<le> \<bar>x\<bar>"
      unfolding e using lo by (simp add: powr_realpow)
    have "real_of_int (int k - 1) + 1 = real k" by simp
    then show "\<bar>x\<bar> < 2 powr (real_of_int (int k - 1) + 1)"
      using hi by (simp add: powr_realpow)
  qed
  with True show ?thesis by (simp add: binade_def k_def n_def)
next
  case False
  define y where "y = 1 / \<bar>x\<bar>"
  define n where "n = nat (\<lceil>y\<rceil> - 1)"
  define k where "k = floorlog 2 n"
  have x: "0 < \<bar>x\<bar>" "\<bar>x\<bar> < 1" using assms False by simp_all
  have y: "1 < y" using x by (simp add: y_def)
  then have c: "2 \<le> \<lceil>y\<rceil>" by linarith
  then have n: "0 < n" by (simp add: n_def)
  have "real n = real_of_int (\<lceil>y\<rceil> - 1)" using c by (simp add: n_def)
  then have rn: "real n < y" "y \<le> real n + 1"
    by linarith+
  from floorlog_bounds [OF n, of 2] have b: "2 ^ (k - 1) \<le> n" "n < 2 ^ k"
    by (simp_all add: k_def)
  have k: "0 < k" using n by (simp add: k_def floorlog_def)
  have lo: "(2::real) ^ (k - 1) < y"
  proof -
    have "(2::real) ^ (k - 1) \<le> real n" using b(1) by (metis of_nat_le_iff of_nat_numeral of_nat_power)
    with rn(1) show ?thesis by linarith
  qed
  have hi: "y \<le> (2::real) ^ k"
  proof -
    have "n + 1 \<le> 2 ^ k" using b(2) by simp
    then have "real (n + 1) \<le> (2::real) ^ k" by (metis of_nat_le_iff of_nat_numeral of_nat_power)
    with rn(2) show ?thesis by simp
  qed
  have iy: "inverse y = \<bar>x\<bar>" by (simp add: y_def)
  have "inverse ((2::real) ^ k) \<le> inverse y"
    using hi y by (intro le_imp_inverse_le) simp_all
  then have xl: "1 / (2::real) ^ k \<le> \<bar>x\<bar>"
    unfolding iy by (simp only: inverse_eq_divide)
  have "inverse y < inverse ((2::real) ^ (k - 1))"
    using lo by (intro less_imp_inverse_less) simp_all
  then have xu: "\<bar>x\<bar> < 1 / (2::real) ^ (k - 1)"
    unfolding iy by (simp only: inverse_eq_divide)
  have "\<lfloor>log 2 \<bar>x\<bar>\<rfloor> = - int k"
  proof (rule floor_log_eqI)
    have "(2::real) powr real_of_int (- int k) = 1 / 2 ^ k"
      by (simp add: powr_minus_divide powr_realpow)
    with xl show "2 powr real_of_int (- int k) \<le> \<bar>x\<bar>" by simp
    have e2: "real_of_int (- int k) + 1 = - real (k - 1)" using k by (simp add: of_nat_diff)
    have "(2::real) powr (- real (k - 1)) = 1 / 2 ^ (k - 1)"
      by (simp add: powr_minus_divide powr_realpow)
    with xu show "\<bar>x\<bar> < 2 powr (real_of_int (- int k) + 1)"
      unfolding e2 by simp
  qed
  with False show ?thesis by (simp add: binade_def k_def n_def y_def)
qed

lemma ulp32_powr: "ulp32 x = 2 powr (of_int (binade x) - 23)"
proof -
  have "(2::real) powr real_of_int (binade x - 23) = 2 powi (binade x - 23)"
    by (rule powr_real_of_int') simp_all
  then show ?thesis by (simp add: ulp32_def)
qed


lemma binade_eqI:
  assumes "2 powr of_int e \<le> x" "x < 2 powr (of_int e + 1)"
  shows "binade x = e"
proof -
  have x: "0 < x" using assms(1) by (smt (verit) powr_gt_zero)
  have "binade x = \<lfloor>log 2 x\<rfloor>" using binade_log [of x] x by simp
  with floor_log_eqI [OF assms] show ?thesis by simp
qed

lemma round_half_even_of_int [simp]: "round_half_even (of_int k) = k"
  by (simp add: round_half_even_def)







lemma round32_pos_eq:
  assumes "0 < x"
  shows "round32 x = ulp32 x * of_int (round_half_even (x / ulp32 x))"
  using assms by (simp add: round32_def)




lemma round32_zero [simp]: "round32 0 = 0"
  by (simp add: round32_def)




lemma round32_representable:
  assumes "2 powr of_int e \<le> v" "v < 2 powr (of_int e + 1)"
    and "v = 2 powr (of_int e - 23) * of_int n"
  shows "round32 v = v"
proof -
  have v: "0 < v" using assms(1) by (smt (verit) powr_gt_zero)
  have b: "binade v = e" using assms(1,2) by (rule binade_eqI)
  have u: "ulp32 v = 2 powr (of_int e - 23)" by (simp add: ulp32_powr b)
  have "v / ulp32 v = of_int n" unfolding u using assms(3) by simp
  then have "round32 v = ulp32 v * of_int n"
    unfolding round32_pos_eq [OF v] by (simp only: round_half_even_of_int)
  then show ?thesis
    unfolding u using assms(3) by simp
qed


lemma round32_one [simp]: "round32 1 = 1"
proof (rule round32_representable [of 0 _ 8388608])
  show "2 powr of_int 0 \<le> (1::real)" by simp
  show "(1::real) < 2 powr (of_int 0 + 1)" by simp
  have "(2::real) powr (- 23) = 1 / 2 powr 23" by (simp add: powr_minus_divide)
  then show "(1::real) = 2 powr (of_int 0 - 23) * of_int 8388608" by simp
qed















text \<open>In exact arithmetic the quotient stays below 1.\<close>

lemma normalize_exact_below_one:
  assumes "0 < nrows g" "0 < ncols g"
  shows "\<exists>out. normalize g = Inr out \<and>
     (\<forall>i < nrows g. \<forall>j < ncols g. 0 \<le> cell out i j \<and> cell out i j < 1)"
proof -
  define lo where "lo = Min (set (cells_of g))"
  define hi where "hi = Max (set (cells_of g))"
  have n: "normalize g = Inr (gmap (\<lambda>x. (x - lo) / (hi - lo + 1 / 10 ^ 6)) g)"
    using normalize_nonempty [OF assms] by (simp add: lo_def hi_def)
  have "0 \<le> (cell g i j - lo) / (hi - lo + 1 / 10 ^ 6) \<and>
      (cell g i j - lo) / (hi - lo + 1 / 10 ^ 6) < 1" if "i < nrows g" "j < ncols g" for i j
  proof -
    have "cell g i j \<in> set (cells_of g)" unfolding set_cells_of using that by blast
    then have "lo \<le> cell g i j" "cell g i j \<le> hi" by (simp_all add: lo_def hi_def)
    then show ?thesis by simp
  qed
  with n show ?thesis by (simp add: gmap_def)
qed


end
